theory Spec2Isabelle
  imports Main "HOL-Library.Char_ord"
begin

section \<open>Values shared by the whole program\<close>

text \<open>
  Go's \<open>error\<close> values. \<open>EOF\<close> is \<open>io.EOF\<close>; the four \<open>Err...\<close> constants are the
  errors bolt returns for a bad key, value or bucket name; \<open>Err msg\<close> is any other error
  (transport, decompression, parsing, storage I/O) with its message.
\<close>

datatype error =
    EOF
  | ErrKeyRequired
  | ErrKeyTooLarge
  | ErrValueTooLarge
  | ErrBucketNameRequired
  | Err string

fun Error :: "error \<Rightarrow> string" where
  "Error EOF = ''EOF''"
| "Error ErrKeyRequired = ''key required''"
| "Error ErrKeyTooLarge = ''key too large''"
| "Error ErrValueTooLarge = ''value too large''"
| "Error ErrBucketNameRequired = ''bucket name required''"
| "Error (Err msg) = msg"

text \<open>\<open>type Status int\<close> with its three constants.\<close>

datatype Status = ready | processing | failed

text \<open>
  A \<open>time.Time\<close> is read as an instant (seconds on the time line); \<open>Time.After\<close>
  compares instants.
\<close>

type_synonym time = int

definition After :: "time \<Rightarrow> time \<Rightarrow> bool" where
  "After t u = (u < t)"

definition RFC1123 :: string where
  "RFC1123 = ''Mon, 02 Jan 2006 15:04:05 MST''"

section \<open>\<open>strings.TrimSpace\<close>\<close>

text \<open>
  \<open>strings.TrimSpace\<close> removes the leading and the trailing white space of a string, white
  space being the runes of \<open>unicode.IsSpace\<close>. A \<open>char\<close> is a byte, so the runes appear
  in their UTF-8 encoding: the six ASCII ones, U+0085 and U+00A0 on two bytes, U+1680,
  U+2000 to U+200A, U+2028, U+2029, U+202F, U+205F and U+3000 on three bytes. A byte
  sequence that is none of these decodes to a rune that is not white space (or to
  \<open>RuneError\<close>) and stops the trimming.
\<close>

definition space1 :: "char \<Rightarrow> bool" where
  "space1 a = (a = CHR 0x09 \<or> a = CHR 0x0A \<or> a = CHR 0x0B \<or> a = CHR 0x0C \<or> a = CHR 0x0D
     \<or> a = CHR 0x20)"

definition space2 :: "char \<Rightarrow> char \<Rightarrow> bool" where
  "space2 a b = (a = CHR 0xC2 \<and> (b = CHR 0x85 \<or> b = CHR 0xA0))"

definition space3 :: "char \<Rightarrow> char \<Rightarrow> char \<Rightarrow> bool" where
  "space3 a b c =
     ((a = CHR 0xE1 \<and> b = CHR 0x9A \<and> c = CHR 0x80)
    \<or> (a = CHR 0xE2 \<and> b = CHR 0x80
         \<and> ((CHR 0x80 \<le> c \<and> c \<le> CHR 0x8A) \<or> c = CHR 0xA8 \<or> c = CHR 0xA9 \<or> c = CHR 0xAF))
    \<or> (a = CHR 0xE2 \<and> b = CHR 0x81 \<and> c = CHR 0x9F)
    \<or> (a = CHR 0xE3 \<and> b = CHR 0x80 \<and> c = CHR 0x80))"

fun TrimLeft :: "string \<Rightarrow> string" where
  "TrimLeft (a # b # c # s) =
     (if space1 a then TrimLeft (b # c # s)
      else if space2 a b then TrimLeft (c # s)
      else if space3 a b c then TrimLeft s
      else a # b # c # s)"
| "TrimLeft [a, b] =
     (if space1 a then TrimLeft [b] else if space2 a b then [] else [a, b])"
| "TrimLeft [a] = (if space1 a then [] else [a])"
| "TrimLeft [] = []"

text \<open>
  \<open>TrimRightRev\<close> works on the reversed string: its argument lists the bytes from the
  last one backwards, as \<open>utf8.DecodeLastRuneInString\<close> visits them.
\<close>

fun TrimRightRev :: "string \<Rightarrow> string" where
  "TrimRightRev (c # b # a # s) =
     (if space1 c then TrimRightRev (b # a # s)
      else if space2 b c then TrimRightRev (a # s)
      else if space3 a b c then TrimRightRev s
      else c # b # a # s)"
| "TrimRightRev [c, b] =
     (if space1 c then TrimRightRev [b] else if space2 b c then [] else [c, b])"
| "TrimRightRev [c] = (if space1 c then [] else [c])"
| "TrimRightRev [] = []"

definition TrimSpace :: "string \<Rightarrow> string" where
  "TrimSpace s = rev (TrimRightRev (rev (TrimLeft s)))"

section \<open>The store (bolt)\<close>

text \<open>
  A bucket maps keys to values, both byte strings; a database is a set of named buckets.
  \<open>faults\<close> lists the outcomes of the transactions still to come, in order: \<open>None\<close> for
  a transaction that goes through, \<open>Some e\<close> for one that the storage layer fails with \<open>e\<close>
  (the database is not open, the commit cannot write). Past the end of the list every
  transaction goes through.
\<close>

type_synonym bucket = "string \<rightharpoonup> string"

type_synonym tx = "string \<rightharpoonup> bucket"

record DB =
  buckets :: tx
  faults :: "error option list"

definition next_fault :: "DB \<Rightarrow> error option \<times> DB" where
  "next_fault db =
     (case faults db of [] \<Rightarrow> (None, db) | f # fs \<Rightarrow> (f, db\<lparr>faults := fs\<rparr>))"

text \<open>
  \<open>db.View\<close>: a read-only transaction. When it cannot begin the function is not run and the
  error is the result; otherwise the function reads the buckets.
\<close>

definition View :: "DB \<Rightarrow> (tx \<Rightarrow> 'a) \<Rightarrow> (error + 'a) \<times> DB" where
  "View db fn =
     (case next_fault db of
        (Some e, db') \<Rightarrow> (Inl e, db')
      | (None, db') \<Rightarrow> (Inr (fn (buckets db')), db'))"

text \<open>
  \<open>db.Update\<close>: a read-write transaction. It is atomic: when the storage layer fails it, or
  the function returns an error, nothing the function wrote is kept.
\<close>

definition Update :: "DB \<Rightarrow> (tx \<Rightarrow> error + tx) \<Rightarrow> error option \<times> DB" where
  "Update db fn =
     (case next_fault db of
        (Some e, db') \<Rightarrow> (Some e, db')
      | (None, db') \<Rightarrow>
          (case fn (buckets db') of
             Inl e \<Rightarrow> (Some e, db')
           | Inr t \<Rightarrow> (None, db'\<lparr>buckets := t\<rparr>)))"

text \<open>
  \<open>tx.CreateBucketIfNotExists\<close> gives the bucket of that name, created empty when the
  transaction has none; the result holds the bucket and the buckets of the transaction.
\<close>

definition CreateBucketIfNotExists :: "tx \<Rightarrow> string \<Rightarrow> error + bucket \<times> tx" where
  "CreateBucketIfNotExists t name =
     (if name = [] then Inl ErrBucketNameRequired
      else case t name of
        None \<Rightarrow> Inr (Map.empty, t(name \<mapsto> Map.empty))
      | Some b \<Rightarrow> Inr (b, t))"

definition MaxKeySize :: nat where
  "MaxKeySize = 32768"

definition MaxValueSize :: nat where
  "MaxValueSize = 2147483646"

definition Put :: "bucket \<Rightarrow> string \<Rightarrow> string \<Rightarrow> error + bucket" where
  "Put b key val =
     (if length key = 0 then Inl ErrKeyRequired
      else if length key > MaxKeySize then Inl ErrKeyTooLarge
      else if length val > MaxValueSize then Inl ErrValueTooLarge
      else Inr (b(key \<mapsto> val)))"

text \<open>
  \<open>string(b.Get(key)) == ""\<close>: the key is not in the bucket (\<open>Get\<close> gives \<open>nil\<close>), or it is
  there with an empty value.
\<close>

definition Get_is_empty :: "bucket \<Rightarrow> string \<Rightarrow> bool" where
  "Get_is_empty b key = (case b key of None \<Rightarrow> True | Some v \<Rightarrow> v = [])"

section \<open>The query service\<close>

record request =
  Method :: string
  Body :: "error + string"

record response =
  StatusCode :: nat
  Text :: string

text \<open>\<open>http.Error\<close> writes the message and a newline under the given status code.\<close>

definition http_Error :: "string \<Rightarrow> nat \<Rightarrow> response" where
  "http_Error msg c = \<lparr>StatusCode = c, Text = msg @ [CHR 0x0A]\<rparr>"

text \<open>\<open>res.Write\<close> with no status code set before it answers 200.\<close>

definition Write :: "string \<Rightarrow> response" where
  "Write s = \<lparr>StatusCode = 200, Text = s\<rparr>"

definition isBlacklisted :: "DB \<Rightarrow> string \<Rightarrow> bool \<times> error option \<times> DB" where
  "isBlacklisted db num =
     (case View db (\<lambda>t. case t ''passports'' of
                           None \<Rightarrow> False
                         | Some b \<Rightarrow> \<not> Get_is_empty b (TrimSpace num)) of
        (Inl e, db') \<Rightarrow> (False, Some e, db')
      | (Inr blacklisted, db') \<Rightarrow> (blacklisted, None, db'))"

definition handlePassportValid :: "DB \<Rightarrow> request \<Rightarrow> response \<times> DB" where
  "handlePassportValid db req =
     (if Method req \<noteq> ''POST'' then (http_Error ''Only POST accepted'' 400, db)
      else case Body req of
        Inl err \<Rightarrow> (http_Error (Error err) 400, db)
      | Inr bodyStr \<Rightarrow>
          if length bodyStr < 9 then (http_Error ''Passport number too short'' 422, db)
          else (case isBlacklisted db bodyStr of
                  (blacklisted, Some err, db') \<Rightarrow> (http_Error (Error err) 500, db')
                | (blacklisted, None, db') \<Rightarrow>
                    (case blacklisted of
                       False \<Rightarrow> (Write ''valid'', db')
                     | True \<Rightarrow> (Write ''invalid'', db'))))"

section \<open>The status register and \<open>/update\<close>\<close>

text \<open>
  \<open>kickstartUpdate\<close> takes the status out of the \<open>syncedStatus\<close> channel, puts it back, and
  decides on it. The result holds the value put back, the values sent on
  \<open>updateRequired\<close> and the response.
\<close>

record kickstart =
  returned :: Status
  signals :: "bool list"
  answer :: response

definition kickstartUpdate :: "Status \<Rightarrow> kickstart" where
  "kickstartUpdate status =
     (case status of
        processing \<Rightarrow>
          \<lparr>returned = status, signals = [], answer = Write ''Update is already in progress''\<rparr>
      | _ \<Rightarrow>
          \<lparr>returned = status, signals = [True],
           answer = Write ''Checking remote for updated dataset''\<rparr>)"

text \<open>
  \<open>syncStatus\<close> keeps in \<open>currentStatus\<close> the last value received on \<open>lastStatus\<close>.
\<close>

fun syncStatus :: "Status \<Rightarrow> Status list \<Rightarrow> Status" where
  "syncStatus currentStatus [] = currentStatus"
| "syncStatus currentStatus (l # ls) = syncStatus l ls"

section \<open>The pipeline\<close>

text \<open>
  What the program gets from outside the store: the parser \<open>time.Parse(time.RFC1123, _)\<close>
  (its result depends on the time zone of the process), the outcome of building and
  sending the \<open>HEAD\<close> request (an error, or the \<open>Last-Modified\<close> header, empty when the
  response has none), the outcome of \<open>http.Get\<close> (an error, or the body: the bytes that the
  bzip2 reader delivers one per \<open>Read\<close>, then the error of the \<open>Read\<close> that ends the loop,
  \<open>io.EOF\<close> at the end of the stream), and the text of \<open>time.Now().Format(time.RFC1123)\<close>.
  The address of the feed has no part in the model: what the network answers is in these
  fields.
\<close>

record env =
  Parse :: "string \<Rightarrow> error + time"
  NewRequest :: "error option"
  Do :: "error + string"
  Get :: "error + string \<times> error"
  Now :: string

text \<open>The \<open>for\<close> loop of \<open>saveToDB\<close> over the lines of a batch, then \<open>saveToDB\<close>.\<close>

fun put_lines :: "bucket \<Rightarrow> string list \<Rightarrow> error + bucket" where
  "put_lines b [] = Inr b"
| "put_lines b (l # ls) =
     (if Get_is_empty b (TrimSpace l) then
        (case Put b (TrimSpace l) ''1'' of
           Inl err \<Rightarrow> Inl err
         | Inr b' \<Rightarrow> put_lines b' ls)
      else put_lines b ls)"

definition saveToDB :: "DB \<Rightarrow> string list \<Rightarrow> error option \<times> DB" where
  "saveToDB db ls =
     Update db (\<lambda>t. case CreateBucketIfNotExists t ''passports'' of
                      Inl err \<Rightarrow> Inl err
                    | Inr (b, t') \<Rightarrow>
                        (case put_lines b ls of
                           Inl err \<Rightarrow> Inl err
                         | Inr b' \<Rightarrow> Inr (t'(''passports'' \<mapsto> b'))))"

text \<open>The error of \<open>b.Put\<close> is dropped in \<open>setLastUpdated\<close>: a failed \<open>Put\<close> writes nothing.\<close>

definition setLastUpdated :: "env \<Rightarrow> DB \<Rightarrow> error option \<times> DB" where
  "setLastUpdated e db =
     Update db (\<lambda>t. case CreateBucketIfNotExists t ''ustatus'' of
                      Inl err \<Rightarrow> Inl err
                    | Inr (b, t') \<Rightarrow>
                        (case Put b ''updated'' (Now e) of
                           Inl err \<Rightarrow> Inr t'
                         | Inr b' \<Rightarrow> Inr (t'(''ustatus'' \<mapsto> b'))))"

definition is_digit :: "char \<Rightarrow> bool" where
  "is_digit c = (CHR ''0'' \<le> c \<and> c \<le> CHR ''9'')"

text \<open>The variables of the reading loop of \<open>downloadUpdate\<close>, and the store it writes to.\<close>

record loop =
  line :: string
  lines :: "string list"
  linesRead :: nat
  savedLines :: nat
  store :: DB

text \<open>
  One turn of the loop after a successful \<open>Read\<close> of the byte \<open>c\<close>: the \<open>switch\<close>, then the
  flush of a full batch, whose result is not looked at.
\<close>

definition step :: "char \<Rightarrow> loop \<Rightarrow> loop" where
  "step c s =
     (let s1 =
        (if is_digit c then s\<lparr>line := line s @ [c]\<rparr>
         else if c = CHR 0x0A then
           (if line s \<noteq> [] then
              s\<lparr>line := [], lines := lines s @ [line s], linesRead := linesRead s + 1,
                savedLines := savedLines s + 1\<rparr>
            else s\<lparr>linesRead := linesRead s + 1\<rparr>)
         else s)
      in if savedLines s1 \<ge> 1000 then
           s1\<lparr>lines := [], savedLines := 0, store := snd (saveToDB (store s1) (lines s1))\<rparr>
         else s1)"

fun read_loop :: "string \<Rightarrow> loop \<Rightarrow> loop" where
  "read_loop [] s = s"
| "read_loop (c # cs) s = read_loop cs (step c s)"

definition start :: "DB \<Rightarrow> loop" where
  "start db = \<lparr>line = [], lines = [], linesRead = 0, savedLines = 0, store = db\<rparr>"

definition downloadUpdate :: "env \<Rightarrow> DB \<Rightarrow> bool \<times> error option \<times> DB" where
  "downloadUpdate e db =
     (case Get e of
        Inl err \<Rightarrow> (False, Some err, db)
      | Inr (bytes, rdrErr) \<Rightarrow>
          (let s = read_loop bytes (start db);
               (err, db1) = (if length (lines s) > 0 then saveToDB (store s) (lines s)
                             else (None, store s))
           in case err of
                Some err' \<Rightarrow> (False, Some err', db1)
              | None \<Rightarrow>
                  if rdrErr \<noteq> EOF then (False, Some rdrErr, db1)
                  else (case setLastUpdated e db1 of
                          (Some err', db2) \<Rightarrow> (False, Some err', db2)
                        | (None, db2) \<Rightarrow> (True, None, db2))))"

section \<open>The orchestrator\<close>

text \<open>
  \<open>remoteUpdated\<close>: the error of \<open>db.View\<close> is assigned to \<open>err\<close> and then overwritten by the
  result of \<open>time.Parse\<close>, so it has no part in the result.
\<close>

definition remoteUpdated :: "env \<Rightarrow> time \<Rightarrow> DB \<Rightarrow> bool \<times> error option \<times> DB" where
  "remoteUpdated e remoteTime db =
     (let (r, db') = View db (\<lambda>t. case t ''ustatus'' of
                                     None \<Rightarrow> RFC1123
                                   | Some b \<Rightarrow>
                                       (case b ''updated'' of
                                          None \<Rightarrow> RFC1123
                                        | Some v \<Rightarrow> if v = [] then RFC1123 else v));
          lastUpdStr = (case r of Inl err \<Rightarrow> RFC1123 | Inr v \<Rightarrow> v)
      in case Parse e lastUpdStr of
           Inl err \<Rightarrow> (True, Some err, db')
         | Inr lastUpdTime \<Rightarrow>
             if \<not> After remoteTime lastUpdTime then (False, None, db')
             else (True, None, db'))"

text \<open>
  \<open>performUpdate\<close> handles one signal. The result lists the statuses sent on \<open>lastStatus\<close>,
  in order, and says whether \<open>downloadUpdate\<close> was called and whether a new signal was put
  on \<open>updateRequired\<close>.
\<close>

record update =
  sent :: "Status list"
  downloaded :: bool
  resignalled :: bool
  after :: DB

definition performUpdate :: "env \<Rightarrow> DB \<Rightarrow> update" where
  "performUpdate e db =
     (case NewRequest e of
        Some err \<Rightarrow> \<lparr>sent = [failed], downloaded = False, resignalled = False, after = db\<rparr>
      | None \<Rightarrow>
     (case Do e of
        Inl err \<Rightarrow> \<lparr>sent = [failed], downloaded = False, resignalled = False, after = db\<rparr>
      | Inr header \<Rightarrow>
     (case Parse e (TrimSpace header) of
        Inl err \<Rightarrow> \<lparr>sent = [failed], downloaded = False, resignalled = False, after = db\<rparr>
      | Inr t \<Rightarrow>
     (case remoteUpdated e t db of (outdated, err, db1) \<Rightarrow>
        if err \<noteq> None then
          \<lparr>sent = [failed], downloaded = False, resignalled = False, after = db1\<rparr>
        else if outdated \<or> err \<noteq> None then
          (case downloadUpdate e db1 of (success, err', db2) \<Rightarrow>
             if err' \<noteq> None \<or> success = False then
               \<lparr>sent = [processing, failed], downloaded = True, resignalled = True,
                after = db2\<rparr>
             else
               \<lparr>sent = [processing, ready], downloaded = True, resignalled = False,
                after = db2\<rparr>)
        else \<lparr>sent = [], downloaded = False, resignalled = False, after = db1\<rparr>))))"

section \<open>Reference definitions\<close>

text \<open>
  The lines of a byte stream: the pieces between newline bytes. The last element is what
  follows the last newline (the whole stream when it has none), and it may be empty.
\<close>

fun lines_of :: "string \<Rightarrow> string list" where
  "lines_of [] = [[]]"
| "lines_of (c # cs) =
     (if c = CHR 0x0A then [] # lines_of cs
      else (c # hd (lines_of cs)) # tl (lines_of cs))"

text \<open>
  The tokens of a stream: the digits of each line that a newline ends, all of them put
  together whatever stands between them, lines without a digit left out. The digits after
  the last newline are the token still pending when the stream ends.
\<close>

definition digit_lines :: "string \<Rightarrow> string list" where
  "digit_lines bs = map (filter is_digit) (lines_of bs)"

definition tokens :: "string \<Rightarrow> string list" where
  "tokens bs = filter (\<lambda>t. t \<noteq> []) (butlast (digit_lines bs))"

definition pending :: "string \<Rightarrow> string" where
  "pending bs = last (digit_lines bs)"

text \<open>
  A token sequence cut into the full batches of 1000 that the loop flushes, and the rest
  that stays in the buffer.
\<close>

function batches :: "string list \<Rightarrow> string list list \<times> string list" where
  "batches ts =
     (if length ts < 1000 then ([], ts)
      else (case batches (drop 1000 ts) of (bs, r) \<Rightarrow> (take 1000 ts # bs, r)))"
  by pat_completeness auto
termination
  by (relation "measure length") auto

declare batches.simps [simp del]

text \<open>The flushes of the loop: each batch goes to \<open>saveToDB\<close> and the error is dropped.\<close>

fun flush :: "DB \<Rightarrow> string list list \<Rightarrow> DB" where
  "flush db [] = db"
| "flush db (ls # lss) = flush (snd (saveToDB db ls)) lss"

text \<open>
  The \<open>passports\<close> bucket of a database, empty when the bucket does not exist, and the
  bucket after a set of keys has been put where \<open>Get\<close> found nothing.
\<close>

definition passports_of :: "DB \<Rightarrow> bucket" where
  "passports_of db = (case buckets db ''passports'' of None \<Rightarrow> Map.empty | Some b \<Rightarrow> b)"

definition ingest :: "bucket \<Rightarrow> string set \<Rightarrow> bucket" where
  "ingest b K = (\<lambda>k. if k \<in> K \<and> Get_is_empty b k then Some ''1'' else b k)"

text \<open>
  The database once \<open>saveToDB\<close> has committed the keys \<open>K\<close>, and once the pipeline has
  committed a token list (for no token at all nothing is written, not even the bucket).
\<close>

definition committed :: "DB \<Rightarrow> string set \<Rightarrow> DB" where
  "committed db K = db\<lparr>buckets := (buckets db)(''passports'' \<mapsto> ingest (passports_of db) K)\<rparr>"

definition ingested :: "DB \<Rightarrow> string list \<Rightarrow> DB" where
  "ingested db ts = (if ts = [] then db else committed db (set ts))"

text \<open>The database once \<open>setLastUpdated\<close> has written the time of the refresh.\<close>

definition stamped :: "env \<Rightarrow> DB \<Rightarrow> DB" where
  "stamped e db =
     db\<lparr>buckets := (buckets db)(''ustatus'' \<mapsto>
        (case buckets db ''ustatus'' of None \<Rightarrow> Map.empty | Some b \<Rightarrow> b)(''updated'' \<mapsto> Now e))\<rparr>"

text \<open>
  The persisted timestamp as \<open>remoteUpdated\<close> reads it: no bucket, no \<open>updated\<close> key and an
  empty value all count as absent.
\<close>

definition stored_timestamp :: "DB \<Rightarrow> string option" where
  "stored_timestamp db =
     (case buckets db ''ustatus'' of
        None \<Rightarrow> None
      | Some b \<Rightarrow> (case b ''updated'' of None \<Rightarrow> None | Some v \<Rightarrow> if v = [] then None else Some v))"

text \<open>
  The answer of the membership query when the storage layer lets the read through, and the
  invariant of the \<open>passports\<close> bucket: no key is stored with an empty value (the program
  only ever stores the marker \<open>1\<close>).
\<close>

definition listed :: "DB \<Rightarrow> string \<Rightarrow> bool" where
  "listed db num = fst (isBlacklisted (db\<lparr>faults := []\<rparr>) num)"

definition blank_free :: "DB \<Rightarrow> bool" where
  "blank_free db = (\<forall>k. passports_of db k \<noteq> Some [])"

section \<open>Concrete inputs\<close>

text \<open>
  The inputs of the examples. \<open>example_Parse\<close> gives the instants (seconds since 1970) that
  \<open>time.Parse\<close> returns for the timestamps the examples use, in a process whose local zone is
  UTC; it takes every other string as unparsable, which is what \<open>time.Parse\<close> does with
  \<open>garbage\<close> and with the empty string.
\<close>

definition example_Parse :: "string \<Rightarrow> error + time" where
  "example_Parse s =
     (if s = ''Mon, 02 Jan 2006 15:04:05 MST'' then Inr 1136214245
      else if s = ''Sat, 01 Jan 2005 00:00:00 GMT'' then Inr 1104537600
      else if s = ''Thu, 01 Jan 2026 00:00:00 GMT'' then Inr 1767225600
      else if s = ''Thu, 01 Oct 2026 12:00:00 UTC'' then Inr 1790856000
      else Inl (Err ''parsing time''))"

definition example_env :: "string \<Rightarrow> error + string \<times> error \<Rightarrow> env" where
  "example_env header body =
     \<lparr>Parse = example_Parse, NewRequest = None, Do = Inr header, Get = body,
      Now = ''Sat, 31 Oct 2026 12:00:00 UTC''\<rparr>"

definition empty_db :: DB where
  "empty_db = \<lparr>buckets = Map.empty, faults = []\<rparr>"

definition updated_db :: "string \<Rightarrow> DB" where
  "updated_db v = \<lparr>buckets = [''ustatus'' \<mapsto> [''updated'' \<mapsto> v]], faults = []\<rparr>"

definition listed_db :: "string \<Rightarrow> DB" where
  "listed_db k = \<lparr>buckets = [''passports'' \<mapsto> [k \<mapsto> ''1'']], faults = []\<rparr>"

section \<open>The tokens of a stream\<close>

lemma lines_of_ne [simp]: "lines_of bs \<noteq> []"
  by (induction bs) auto

lemma is_digit_nl [simp]: "\<not> is_digit (CHR 0x0A)"
  by (simp add: is_digit_def)

lemma lines_of_append:
  "CHR 0x0A \<notin> set l \<Longrightarrow> lines_of (l @ bs) = (l @ hd (lines_of bs)) # tl (lines_of bs)"
  by (induction l) auto

lemma digits_no_nl: "list_all is_digit l \<Longrightarrow> CHR 0x0A \<notin> set l"
  by (induction l) auto

lemma digit_lines_nil: "list_all is_digit l \<Longrightarrow> digit_lines l = [l]"
  using lines_of_append [of l "[]"] digits_no_nl [of l]
  by (simp add: digit_lines_def list_all_iff)

lemma digit_lines_newline:
  "list_all is_digit l \<Longrightarrow> digit_lines (l @ CHR 0x0A # cs) = l # digit_lines cs"
  using lines_of_append [of l "CHR 0x0A # cs"] digits_no_nl [of l]
  by (simp add: digit_lines_def list_all_iff)

lemma digit_lines_other:
  "\<not> is_digit c \<Longrightarrow> c \<noteq> CHR 0x0A \<Longrightarrow> list_all is_digit l \<Longrightarrow>
   digit_lines (l @ c # cs) = digit_lines (l @ cs)"
  using lines_of_append [of l "c # cs"] lines_of_append [of l cs] digits_no_nl [of l]
  by (simp add: digit_lines_def)

lemma digit_lines_ne [simp]: "digit_lines bs \<noteq> []"
  by (simp add: digit_lines_def)

lemma tokens_nil: "list_all is_digit l \<Longrightarrow> tokens l = []"
  by (simp add: tokens_def digit_lines_nil)

lemma pending_nil: "list_all is_digit l \<Longrightarrow> pending l = l"
  by (simp add: pending_def digit_lines_nil)

lemma tokens_newline:
  "list_all is_digit l \<Longrightarrow>
   tokens (l @ CHR 0x0A # cs) = (if l = [] then tokens cs else l # tokens cs)"
  by (simp add: tokens_def digit_lines_newline)

lemma pending_newline:
  "list_all is_digit l \<Longrightarrow> pending (l @ CHR 0x0A # cs) = pending cs"
  by (simp add: pending_def digit_lines_newline)

lemma tokens_other:
  "\<not> is_digit c \<Longrightarrow> c \<noteq> CHR 0x0A \<Longrightarrow> list_all is_digit l \<Longrightarrow>
   tokens (l @ c # cs) = tokens (l @ cs)"
  by (simp add: tokens_def digit_lines_other)

lemma pending_other:
  "\<not> is_digit c \<Longrightarrow> c \<noteq> CHR 0x0A \<Longrightarrow> list_all is_digit l \<Longrightarrow>
   pending (l @ c # cs) = pending (l @ cs)"
  by (simp add: pending_def digit_lines_other)

lemma batches_small: "length ts < 1000 \<Longrightarrow> batches ts = ([], ts)"
  by (simp add: batches.simps)

lemma batches_full:
  "length xs = 1000 \<Longrightarrow> batches (xs @ ys) = (xs # fst (batches ys), snd (batches ys))"
  by (subst batches.simps) (simp add: split_beta)

lemma batches_rest_short: "length (snd (batches ts)) < 1000"
proof (induction ts rule: batches.induct)
  case (1 ts)
  show ?case
  proof (cases "length ts < 1000")
    case True
    then show ?thesis by (simp add: batches_small)
  next
    case False
    with "1" show ?thesis
      by (subst batches.simps) (simp add: split_beta)
  qed
qed

lemma batches_concat: "concat (fst (batches ts)) @ snd (batches ts) = ts"
proof (induction ts rule: batches.induct)
  case (1 ts)
  show ?case
  proof (cases "length ts < 1000")
    case True
    then show ?thesis by (simp add: batches_small)
  next
    case False
    with "1" show ?thesis
      by (subst (1 2) batches.simps) (simp add: split_beta)
  qed
qed

lemma step_digit:
  "is_digit c \<Longrightarrow> savedLines s < 1000 \<Longrightarrow> step c s = s\<lparr>line := line s @ [c]\<rparr>"
  by (simp add: step_def)

lemma step_other:
  "\<not> is_digit c \<Longrightarrow> c \<noteq> CHR 0x0A \<Longrightarrow> savedLines s < 1000 \<Longrightarrow> step c s = s"
  by (simp add: step_def)

lemma step_newline_empty:
  "line s = [] \<Longrightarrow> savedLines s < 1000 \<Longrightarrow>
   step (CHR 0x0A) s = s\<lparr>linesRead := linesRead s + 1\<rparr>"
  by (simp add: step_def)

lemma step_newline_keep:
  "line s \<noteq> [] \<Longrightarrow> savedLines s + 1 < 1000 \<Longrightarrow>
   step (CHR 0x0A) s =
     s\<lparr>line := [], lines := lines s @ [line s], linesRead := linesRead s + 1,
       savedLines := savedLines s + 1\<rparr>"
  by (simp add: step_def)

lemma step_newline_flush:
  "line s \<noteq> [] \<Longrightarrow> savedLines s + 1 \<ge> 1000 \<Longrightarrow>
   step (CHR 0x0A) s =
     s\<lparr>line := [], lines := [], linesRead := linesRead s + 1, savedLines := 0,
       store := snd (saveToDB (store s) (lines s @ [line s]))\<rparr>"
  by (simp add: step_def)

lemma read_loop_eq:
  "savedLines s = length (lines s) \<Longrightarrow> length (lines s) < 1000 \<Longrightarrow>
   list_all is_digit (line s) \<Longrightarrow>
   read_loop bs s =
     \<lparr>line = pending (line s @ bs),
      lines = snd (batches (lines s @ tokens (line s @ bs))),
      linesRead = linesRead s + count_list bs (CHR 0x0A),
      savedLines = length (snd (batches (lines s @ tokens (line s @ bs)))),
      store = flush (store s) (fst (batches (lines s @ tokens (line s @ bs))))\<rparr>"
proof (induction bs arbitrary: s)
  case Nil
  then show ?case
    by (simp add: tokens_nil pending_nil batches_small)
next
  case (Cons c cs)
  note inv = Cons.prems
  consider (digit) "is_digit c"
    | (nl_empty) "c = CHR 0x0A" "line s = []"
    | (nl_keep) "c = CHR 0x0A" "line s \<noteq> []" "length (lines s) + 1 < 1000"
    | (nl_flush) "c = CHR 0x0A" "line s \<noteq> []" "length (lines s) + 1 = 1000"
    | (other) "\<not> is_digit c" "c \<noteq> CHR 0x0A"
    using inv by linarith
  then show ?case
  proof cases
    case digit
    then have st: "step c s = s\<lparr>line := line s @ [c]\<rparr>"
      using inv by (simp add: step_digit)
    have "c \<noteq> CHR 0x0A" using digit by auto
    then show ?thesis
      using inv digit Cons.IH [of "s\<lparr>line := line s @ [c]\<rparr>"] by (simp add: st)
  next
    case nl_empty
    then have st: "step (CHR 0x0A) s = s\<lparr>linesRead := linesRead s + 1\<rparr>"
      using inv by (simp add: step_newline_empty)
    show ?thesis
      using inv nl_empty Cons.IH [of "s\<lparr>linesRead := linesRead s + 1\<rparr>"]
        tokens_newline [of "[]" cs] pending_newline [of "[]" cs]
      by (simp add: st)
  next
    case nl_keep
    let ?s = "s\<lparr>line := [], lines := lines s @ [line s], linesRead := linesRead s + 1,
       savedLines := savedLines s + 1\<rparr>"
    have st: "step (CHR 0x0A) s = ?s"
      using inv nl_keep by (simp add: step_newline_keep)
    show ?thesis
      using inv nl_keep Cons.IH [of ?s]
      by (simp add: st tokens_newline pending_newline)
  next
    case nl_flush
    let ?s = "s\<lparr>line := [], lines := [], linesRead := linesRead s + 1, savedLines := 0,
       store := snd (saveToDB (store s) (lines s @ [line s]))\<rparr>"
    have st: "step (CHR 0x0A) s = ?s"
      using inv nl_flush by (simp add: step_newline_flush)
    have b: "batches (lines s @ line s # tokens cs) =
       ((lines s @ [line s]) # fst (batches (tokens cs)), snd (batches (tokens cs)))"
      using batches_full [of "lines s @ [line s]" "tokens cs"] nl_flush by simp
    show ?thesis
      using inv nl_flush Cons.IH [of ?s]
      by (simp add: st tokens_newline pending_newline b)
  next
    case other
    then have st: "step c s = s"
      using inv by (simp add: step_other)
    show ?thesis
      using inv other Cons.IH [of s]
      by (simp add: st tokens_other pending_other)
  qed
qed

section \<open>Committing batches\<close>

lemma digit_not_space:
  "is_digit c \<Longrightarrow>
   \<not> space1 c \<and> \<not> space2 c x \<and> \<not> space2 x c \<and> \<not> space3 c x y \<and> \<not> space3 x y c"
  by (auto simp: is_digit_def space1_def space2_def space3_def less_eq_char_def)

lemma TrimLeft_digit: "is_digit c \<Longrightarrow> TrimLeft (c # s) = c # s"
  by (cases "(c # s)" rule: TrimLeft.cases) (simp_all add: digit_not_space)

lemma TrimRightRev_digit: "is_digit c \<Longrightarrow> TrimRightRev (c # s) = c # s"
  by (cases "(c # s)" rule: TrimRightRev.cases) (simp_all add: digit_not_space)

lemma TrimSpace_digits: "t \<noteq> [] \<Longrightarrow> list_all is_digit t \<Longrightarrow> TrimSpace t = t"
proof -
  assume ne: "t \<noteq> []" and d: "list_all is_digit t"
  then obtain c s where t: "t = c # s" by (cases t) auto
  then have l: "TrimLeft t = t" using d by (simp add: TrimLeft_digit)
  obtain c' s' where r: "rev t = c' # s'" using ne by (cases "rev t") auto
  then have "c' \<in> set t" by (metis list.set_intros(1) set_rev)
  then have "is_digit c'" using d by (simp add: list_all_iff)
  then have "TrimRightRev (rev t) = rev t" using r by (simp add: TrimRightRev_digit)
  then show ?thesis by (simp add: TrimSpace_def l)
qed

lemma tokens_digits: "t \<in> set (tokens bs) \<Longrightarrow> t \<noteq> [] \<and> list_all is_digit t"
  by (auto simp: tokens_def digit_lines_def list_all_iff dest!: in_set_butlastD)

lemma TrimSpace_tokens: "TrimSpace ` set (tokens bs) = set (tokens bs)"
  using tokens_digits [of _ bs] by (force simp: TrimSpace_digits)

lemma ingest_put:
  "Get_is_empty b k \<Longrightarrow> ingest (b(k \<mapsto> ''1'')) K = ingest b (insert k K)"
  by (auto simp: ingest_def Get_is_empty_def fun_eq_iff split: option.splits)

lemma ingest_skip: "\<not> Get_is_empty b k \<Longrightarrow> ingest b K = ingest b (insert k K)"
  by (auto simp: ingest_def Get_is_empty_def fun_eq_iff split: option.splits)

lemma ingest_ingest: "ingest (ingest b K) L = ingest b (K \<union> L)"
  by (auto simp: ingest_def Get_is_empty_def fun_eq_iff split: option.splits)

lemma ingest_empty [simp]: "ingest b {} = b"
  by (simp add: ingest_def)

lemma put_lines_ingest:
  "\<forall>l\<in>set ls. TrimSpace l \<noteq> [] \<and> length (TrimSpace l) \<le> MaxKeySize \<Longrightarrow>
   put_lines b ls = Inr (ingest b (TrimSpace ` set ls))"
proof (induction ls arbitrary: b)
  case Nil
  then show ?case by simp
next
  case (Cons l ls)
  then have IH: "\<And>b'. put_lines b' ls = Inr (ingest b' (TrimSpace ` set ls))" by simp
  have k: "TrimSpace l \<noteq> []" "length (TrimSpace l) \<le> MaxKeySize" using Cons.prems by auto
  show ?case
  proof (cases "Get_is_empty b (TrimSpace l)")
    case True
    have "Put b (TrimSpace l) ''1'' = Inr (b(TrimSpace l \<mapsto> ''1''))"
      using k by (simp add: Put_def MaxValueSize_def)
    then show ?thesis using True IH by (simp add: ingest_put)
  next
    case False
    then show ?thesis using IH ingest_skip [OF False] by simp
  qed
qed

lemma passports_of_committed [simp]:
  "passports_of (committed db K) = ingest (passports_of db) K"
  by (simp add: committed_def passports_of_def)

lemma faults_committed [simp]: "faults (committed db K) = faults db"
  by (simp add: committed_def)

lemma committed_committed: "committed (committed db K) L = committed db (K \<union> L)"
  by (simp add: committed_def passports_of_def ingest_ingest)

lemma saveToDB_ok:
  "faults db = [] \<Longrightarrow>
   \<forall>l\<in>set ls. TrimSpace l \<noteq> [] \<and> length (TrimSpace l) \<le> MaxKeySize \<Longrightarrow>
   saveToDB db ls = (None, committed db (TrimSpace ` set ls))"
  by (cases "buckets db ''passports''")
     (simp_all add: saveToDB_def Update_def next_fault_def CreateBucketIfNotExists_def
        put_lines_ingest committed_def passports_of_def)

lemma flush_ok:
  "faults db = [] \<Longrightarrow> lss \<noteq> [] \<Longrightarrow>
   \<forall>l\<in>set (concat lss). TrimSpace l \<noteq> [] \<and> length (TrimSpace l) \<le> MaxKeySize \<Longrightarrow>
   flush db lss = committed db (TrimSpace ` set (concat lss))"
proof (induction lss arbitrary: db)
  case Nil
  then show ?case by simp
next
  case (Cons ls lss)
  have s: "saveToDB db ls = (None, committed db (TrimSpace ` set ls))"
    using Cons.prems by (simp add: saveToDB_ok)
  show ?case
  proof (cases "lss = []")
    case True
    then show ?thesis by (simp add: s)
  next
    case False
    have "flush (committed db (TrimSpace ` set ls)) lss =
        committed (committed db (TrimSpace ` set ls)) (TrimSpace ` set (concat lss))"
      using Cons.prems False by (intro Cons.IH) auto
    then show ?thesis by (simp add: s committed_committed image_Un)
  qed
qed


lemma start_inv:
  "savedLines (start db) = length (lines (start db))" "length (lines (start db)) < 1000"
  "list_all is_digit (line (start db))"
  by (simp_all add: start_def)

lemma read_loop_start:
  "read_loop bs (start db) =
     \<lparr>line = pending bs, lines = snd (batches (tokens bs)),
      linesRead = count_list bs (CHR 0x0A),
      savedLines = length (snd (batches (tokens bs))),
      store = flush db (fst (batches (tokens bs)))\<rparr>"
  using read_loop_eq [OF start_inv, of bs db] by (simp add: start_def)

lemma tokens_keys:
  "\<forall>t\<in>set (tokens bs). length t \<le> MaxKeySize \<Longrightarrow> set ls \<subseteq> set (tokens bs) \<Longrightarrow>
   \<forall>l\<in>set ls. TrimSpace l \<noteq> [] \<and> length (TrimSpace l) \<le> MaxKeySize"
  using tokens_digits [of _ bs] by (auto simp: TrimSpace_digits)

lemma TrimSpace_image_tokens:
  "set ls \<subseteq> set (tokens bs) \<Longrightarrow> TrimSpace ` set ls = set ls"
  using tokens_digits [of _ bs] by (force simp: TrimSpace_digits)

lemma batches_sets:
  "set (concat (fst (batches ts))) \<union> set (snd (batches ts)) = set ts"
  using batches_concat [of ts] by (metis set_append)

lemma batches_nil: "fst (batches ts) = [] \<Longrightarrow> snd (batches ts) = ts"
  using batches_concat [of ts] by simp

lemma faults_flush: "faults db = [] \<Longrightarrow> faults (flush db lss) = []"
proof (induction lss arbitrary: db)
  case Nil
  then show ?case by simp
next
  case (Cons ls lss)
  have "faults (snd (saveToDB db ls)) = []"
    using Cons.prems
    by (auto simp: saveToDB_def Update_def next_fault_def split: sum.splits)
  then show ?case using Cons.IH by simp
qed

lemma final_store:
  assumes f: "faults db = []" and k: "\<forall>t\<in>set (tokens bs). length t \<le> MaxKeySize"
  shows "(snd (batches (tokens bs)) \<noteq> [] \<longrightarrow>
            saveToDB (flush db (fst (batches (tokens bs)))) (snd (batches (tokens bs)))
              = (None, ingested db (tokens bs)))
       \<and> (snd (batches (tokens bs)) = [] \<longrightarrow>
            flush db (fst (batches (tokens bs))) = ingested db (tokens bs))"
proof -
  let ?full = "fst (batches (tokens bs))" and ?rest = "snd (batches (tokens bs))"
  have sub: "set (concat ?full) \<subseteq> set (tokens bs)" "set ?rest \<subseteq> set (tokens bs)"
    using batches_sets [of "tokens bs"] by auto
  have un: "set (concat ?full) \<union> set ?rest = set (tokens bs)" by (rule batches_sets)
  have fl: "?full \<noteq> [] \<Longrightarrow> flush db ?full = committed db (set (concat ?full))"
    using flush_ok [OF f, of ?full] tokens_keys [OF k sub(1)] TrimSpace_image_tokens [OF sub(1)]
    by simp
  have sv: "\<And>d. faults d = [] \<Longrightarrow> saveToDB d ?rest = (None, committed d (set ?rest))"
    using saveToDB_ok tokens_keys [OF k sub(2)] TrimSpace_image_tokens [OF sub(2)]
    by simp
  show ?thesis
  proof (cases "?full = []")
    case True
    then have r: "?rest = tokens bs" by (rule batches_nil)
    show ?thesis using True sv [OF f] by (simp add: r ingested_def batches_small)
  next
    case False
    have ne: "tokens bs \<noteq> []" using False by (auto simp: batches_small)
    show ?thesis
    proof (cases "?rest = []")
      case True
      then show ?thesis using fl [OF False] un ne by (simp add: ingested_def)
    next
      case False
      have "saveToDB (committed db (set (concat ?full))) ?rest =
          (None, committed (committed db (set (concat ?full))) (set ?rest))"
        using f by (intro sv) simp
      then show ?thesis
        using fl [OF \<open>?full \<noteq> []\<close>] False un ne
        by (simp add: ingested_def committed_committed)
    qed
  qed
qed

lemma faults_ingested [simp]: "faults (ingested db ts) = faults db"
  by (simp add: ingested_def)

lemma setLastUpdated_ok:
  "faults db = [] \<Longrightarrow> length (Now e) \<le> MaxValueSize \<Longrightarrow>
   setLastUpdated e db = (None, stamped e db)"
  by (cases "buckets db ''ustatus''")
     (simp_all add: setLastUpdated_def Update_def next_fault_def CreateBucketIfNotExists_def
        Put_def MaxKeySize_def stamped_def)

lemma setLastUpdated_passports:
  "faults db = [] \<Longrightarrow>
   fst (setLastUpdated e db) = None \<and>
   buckets (snd (setLastUpdated e db)) ''passports'' = buckets db ''passports'' \<and>
   faults (snd (setLastUpdated e db)) = []"
  by (cases "buckets db ''ustatus''")
     (simp_all add: setLastUpdated_def Update_def next_fault_def CreateBucketIfNotExists_def
        Put_def MaxKeySize_def)

lemma downloadUpdate_ok:
  assumes "Get e = Inr (bs, rdrErr)" and "faults db = []"
    and "\<forall>t\<in>set (tokens bs). length t \<le> MaxKeySize"
  shows "downloadUpdate e db =
     (if rdrErr \<noteq> EOF then (False, Some rdrErr, ingested db (tokens bs))
      else (True, None, snd (setLastUpdated e (ingested db (tokens bs)))))"
proof -
  obtain db2 where sl: "setLastUpdated e (ingested db (tokens bs)) = (None, db2)"
    using setLastUpdated_passports [of "ingested db (tokens bs)" e] assms(2)
    by (cases "setLastUpdated e (ingested db (tokens bs))") simp
  show ?thesis
    using assms(1) final_store [OF assms(2,3)]
    by (simp add: downloadUpdate_def read_loop_start Let_def sl)
qed

lemma downloadUpdate_fails:
  "Get e = Inr (bs, rdrErr) \<Longrightarrow> rdrErr \<noteq> EOF \<Longrightarrow>
   fst (downloadUpdate e db) = False \<and> fst (snd (downloadUpdate e db)) \<noteq> None"
  by (simp add: downloadUpdate_def Let_def split: prod.splits option.splits)


section \<open>The orchestrator's check\<close>

lemma buckets_next_fault [simp]: "buckets (snd (next_fault db)) = buckets db"
  by (simp add: next_fault_def split: list.splits)

lemma View_eq:
  "View db fn =
     ((case fst (next_fault db) of Some e \<Rightarrow> Inl e | None \<Rightarrow> Inr (fn (buckets db))),
      snd (next_fault db))"
  using buckets_next_fault [of db]
  by (cases "next_fault db") (auto simp: View_def split: option.splits)

lemma remoteUpdated_absent:
  "stored_timestamp db = None \<Longrightarrow> Parse e RFC1123 = Inr t0 \<Longrightarrow>
   remoteUpdated e t db = (t0 < t, None, snd (next_fault db))"
  by (auto simp: remoteUpdated_def View_eq stored_timestamp_def After_def
      split: option.splits if_splits)

lemma remoteUpdated_present:
  "stored_timestamp db = Some v \<Longrightarrow> fst (next_fault db) = None \<Longrightarrow>
   remoteUpdated e t db =
     (case Parse e v of
        Inl err \<Rightarrow> (True, Some err, snd (next_fault db))
      | Inr t0 \<Rightarrow> (t0 < t, None, snd (next_fault db)))"
  by (auto simp: remoteUpdated_def View_eq stored_timestamp_def After_def
      split: option.splits sum.splits if_splits)

text \<open>
  Claim C1, amended. When the persisted timestamp is absent, \<open>remoteUpdated\<close> takes the
  layout string \<open>time.RFC1123\<close> in its place, whose parse is the instant 2 Jan 2006 15:04:05:
  the handling of a signal whose \<open>HEAD\<close> request succeeded calls \<open>downloadUpdate\<close> exactly
  when the remote time is strictly after that instant, and then the first status sent is
  \<open>processing\<close>. When the persisted timestamp does not parse, \<open>remoteUpdated\<close> reports the
  data as outdated (together with the parse error).
\<close>

theorem C1_absent_metadata:
  assumes "NewRequest e = None" and "Do e = Inr header"
    and "Parse e (TrimSpace header) = Inr t"
    and "stored_timestamp db = None" and "Parse e RFC1123 = Inr t0"
  shows "downloaded (performUpdate e db) = (t0 < t)
       \<and> (t0 < t \<longrightarrow> take 1 (sent (performUpdate e db)) = [processing])
       \<and> (stored_timestamp d = Some v \<and> fst (next_fault d) = None \<and> Parse e v = Inl err
            \<longrightarrow> fst (remoteUpdated e t' d) = True)"
  using assms remoteUpdated_absent [OF assms(4,5), of t] remoteUpdated_present [of d v e t']
  by (auto simp: performUpdate_def split: prod.splits)

lemma TrimSpace_examples:
  "TrimSpace ''Thu, 01 Jan 2026 00:00:00 GMT'' = ''Thu, 01 Jan 2026 00:00:00 GMT''"
  "TrimSpace ''Sat, 01 Jan 2005 00:00:00 GMT'' = ''Sat, 01 Jan 2005 00:00:00 GMT''"
  "TrimSpace ''Thu, 01 Oct 2026 12:00:00 UTC'' = ''Thu, 01 Oct 2026 12:00:00 UTC''"
  by (simp_all add: TrimSpace_def space1_def space2_def space3_def)

text \<open>
  An empty store and a feed modified on 1 Jan 2026: the download is started. A store whose
  timestamp is \<open>garbage\<close>: the check answers outdated.
\<close>

theorem C1_absent_metadata_witness:
  "downloaded (performUpdate
      (example_env ''Thu, 01 Jan 2026 00:00:00 GMT'' (Inl (Err ''connection refused'')))
      empty_db) = True
   \<and> fst (remoteUpdated
      (example_env ''Thu, 01 Jan 2026 00:00:00 GMT'' (Inl (Err ''connection refused'')))
      1767225600 (updated_db ''garbage'')) = True"
  using C1_absent_metadata
    [of "example_env ''Thu, 01 Jan 2026 00:00:00 GMT'' (Inl (Err ''connection refused''))"
        "''Thu, 01 Jan 2026 00:00:00 GMT''" 1767225600 empty_db 1136214245
        "updated_db ''garbage''" "''garbage''" "Err ''parsing time''" 1767225600]
  by (simp add: example_env_def example_Parse_def TrimSpace_examples stored_timestamp_def
      empty_db_def updated_db_def RFC1123_def next_fault_def)

text \<open>
  Against C1 as stated: with an empty store and a feed last modified on 1 Jan 2005 nothing
  is sent and nothing is downloaded; with \<open>garbage\<close> as persisted timestamp the status
  becomes \<open>failed\<close> and nothing is downloaded.
\<close>

theorem C1_counterexample:
  "performUpdate
      (example_env ''Sat, 01 Jan 2005 00:00:00 GMT'' (Inl (Err ''connection refused'')))
      empty_db
     = \<lparr>sent = [], downloaded = False, resignalled = False, after = empty_db\<rparr>
   \<and> performUpdate
      (example_env ''Thu, 01 Jan 2026 00:00:00 GMT'' (Inl (Err ''connection refused'')))
      (updated_db ''garbage'')
     = \<lparr>sent = [failed], downloaded = False, resignalled = False,
        after = updated_db ''garbage''\<rparr>"
  by (simp add: performUpdate_def remoteUpdated_def View_def next_fault_def example_env_def
      example_Parse_def TrimSpace_examples empty_db_def updated_db_def RFC1123_def After_def)

text \<open>
  Claim C5, amended. When the remote time is not strictly after the persisted timestamp,
  the handling of the signal does not call \<open>downloadUpdate\<close>, puts no new signal, leaves the
  buckets as they are and sends no status: the status register keeps the status it had,
  \<open>ready\<close> if it was \<open>ready\<close> and \<open>failed\<close> if it was \<open>failed\<close>.
\<close>

theorem C5_staleness_gate:
  assumes "NewRequest e = None" and "Do e = Inr header"
    and "Parse e (TrimSpace header) = Inr t"
    and "stored_timestamp db = Some v" and "fst (next_fault db) = None"
    and "Parse e v = Inr t0" and "\<not> After t t0"
  shows "sent (performUpdate e db) = []
       \<and> downloaded (performUpdate e db) = False
       \<and> resignalled (performUpdate e db) = False
       \<and> buckets (after (performUpdate e db)) = buckets db
       \<and> syncStatus st (sent (performUpdate e db)) = st"
proof -
  have "remoteUpdated e t db = (False, None, snd (next_fault db))"
    using remoteUpdated_present [OF assms(4,5), of e t] assms(6,7) by (simp add: After_def)
  moreover have "buckets (snd (next_fault db)) = buckets db"
    by (simp add: next_fault_def split: list.splits)
  ultimately show ?thesis
    using assms(1-3) by (simp add: performUpdate_def)
qed

text \<open>A store refreshed on 1 Oct 2026 and a feed modified on 1 Jan 2026, status \<open>ready\<close>.\<close>

theorem C5_staleness_gate_witness:
  "syncStatus ready (sent (performUpdate
      (example_env ''Thu, 01 Jan 2026 00:00:00 GMT'' (Inl (Err ''connection refused'')))
      (updated_db ''Thu, 01 Oct 2026 12:00:00 UTC''))) = ready
   \<and> downloaded (performUpdate
      (example_env ''Thu, 01 Jan 2026 00:00:00 GMT'' (Inl (Err ''connection refused'')))
      (updated_db ''Thu, 01 Oct 2026 12:00:00 UTC'')) = False"
  using C5_staleness_gate
    [of "example_env ''Thu, 01 Jan 2026 00:00:00 GMT'' (Inl (Err ''connection refused''))"
        "''Thu, 01 Jan 2026 00:00:00 GMT''" 1767225600
        "updated_db ''Thu, 01 Oct 2026 12:00:00 UTC''" "''Thu, 01 Oct 2026 12:00:00 UTC''"
        1790856000 ready]
  by (simp add: example_env_def example_Parse_def TrimSpace_examples stored_timestamp_def
      updated_db_def next_fault_def After_def)

text \<open>
  Against C5 as stated: the same check when the status was \<open>failed\<close> (an earlier \<open>HEAD\<close>
  request did not get through) leaves it \<open>failed\<close>, not \<open>ready\<close>.
\<close>

theorem C5_counterexample:
  "syncStatus failed (sent (performUpdate
      (example_env ''Thu, 01 Jan 2026 00:00:00 GMT'' (Inl (Err ''connection refused'')))
      (updated_db ''Thu, 01 Oct 2026 12:00:00 UTC''))) \<noteq> ready"
  by (simp add: performUpdate_def remoteUpdated_def View_def next_fault_def example_env_def
      example_Parse_def TrimSpace_examples updated_db_def After_def)

section \<open>\<open>/update\<close>\<close>

text \<open>
  Claim C9. \<open>kickstartUpdate\<close> takes the status once and puts it back; on \<open>ready\<close> and on
  \<open>failed\<close> it puts exactly one signal on \<open>updateRequired\<close> and answers
  \<open>Checking remote for updated dataset\<close>; on \<open>processing\<close> it puts no signal and answers
  \<open>Update is already in progress\<close>.
\<close>

theorem C9_kickstart:
  "kickstartUpdate ready =
     \<lparr>returned = ready, signals = [True],
      answer = \<lparr>StatusCode = 200, Text = ''Checking remote for updated dataset''\<rparr>\<rparr>
   \<and> kickstartUpdate failed =
     \<lparr>returned = failed, signals = [True],
      answer = \<lparr>StatusCode = 200, Text = ''Checking remote for updated dataset''\<rparr>\<rparr>
   \<and> kickstartUpdate processing =
     \<lparr>returned = processing, signals = [],
      answer = \<lparr>StatusCode = 200, Text = ''Update is already in progress''\<rparr>\<rparr>"
  by (simp add: kickstartUpdate_def Write_def)

section \<open>The answers of the query service\<close>

lemma isBlacklisted_eq:
  "isBlacklisted db num =
     (case fst (next_fault db) of
        Some e \<Rightarrow> (False, Some e, snd (next_fault db))
      | None \<Rightarrow> (\<not> Get_is_empty (passports_of db) (TrimSpace num), None, snd (next_fault db)))"
  by (simp add: isBlacklisted_def View_eq passports_of_def Get_is_empty_def
      split: option.splits)

lemma listed_eq: "listed db num = (\<not> Get_is_empty (passports_of db) (TrimSpace num))"
  by (simp add: listed_def isBlacklisted_eq next_fault_def passports_of_def)

lemma handle_lookup:
  "Method req = ''POST'' \<Longrightarrow> Body req = Inr body \<Longrightarrow> 9 \<le> length body \<Longrightarrow>
   handlePassportValid db req =
     ((case fst (next_fault db) of
         Some err \<Rightarrow> http_Error (Error err) 500
       | None \<Rightarrow> Write (if listed db body then ''invalid'' else ''valid'')),
      snd (next_fault db))"
  by (simp add: handlePassportValid_def isBlacklisted_eq listed_eq split: option.splits)

text \<open>
  Claim C7. A request whose method is not \<open>POST\<close> is answered 400 and a \<open>POST\<close> whose body has
  8 bytes or fewer is answered 422; both leave the store as it was, no transaction begun. A
  \<open>POST\<close> whose body has 9 bytes or more begins one read transaction, and the answer is
  what the lookup gives: 500 when the storage layer fails, else \<open>invalid\<close> or \<open>valid\<close>.
\<close>

theorem C7_validation:
  "(Method req \<noteq> ''POST'' \<longrightarrow>
      handlePassportValid db req =
        (\<lparr>StatusCode = 400, Text = ''Only POST accepted'' @ [CHR 0x0A]\<rparr>, db))
   \<and> (Method req = ''POST'' \<and> Body req = Inr body \<and> length body \<le> 8 \<longrightarrow>
      handlePassportValid db req =
        (\<lparr>StatusCode = 422, Text = ''Passport number too short'' @ [CHR 0x0A]\<rparr>, db))
   \<and> (Method req = ''POST'' \<and> Body req = Inr body \<and> 9 \<le> length body \<longrightarrow>
      handlePassportValid db req =
        ((case fst (next_fault db) of
            Some err \<Rightarrow> \<lparr>StatusCode = 500, Text = Error err @ [CHR 0x0A]\<rparr>
          | None \<Rightarrow>
              \<lparr>StatusCode = 200,
               Text = (if fst (isBlacklisted (db\<lparr>faults := []\<rparr>) body) then ''invalid''
                       else ''valid'')\<rparr>),
         snd (next_fault db)))"
proof -
  have "Method req = ''POST'' \<Longrightarrow> Body req = Inr body \<Longrightarrow> 9 \<le> length body \<Longrightarrow>
    handlePassportValid db req =
        ((case fst (next_fault db) of
            Some err \<Rightarrow> \<lparr>StatusCode = 500, Text = Error err @ [CHR 0x0A]\<rparr>
          | None \<Rightarrow>
              \<lparr>StatusCode = 200,
               Text = (if fst (isBlacklisted (db\<lparr>faults := []\<rparr>) body) then ''invalid''
                       else ''valid'')\<rparr>),
         snd (next_fault db))"
    using handle_lookup [of req body db]
    by (simp add: listed_def http_Error_def Write_def split: option.splits)
  then show ?thesis
    by (auto simp: handlePassportValid_def http_Error_def)
qed

text \<open>A \<open>GET\<close>, a body of 8 bytes and a body of 9 bytes, on the empty store.\<close>

theorem C7_validation_witness:
  "handlePassportValid empty_db \<lparr>Method = ''GET'', Body = Inr ''123456789''\<rparr> =
     (\<lparr>StatusCode = 400, Text = ''Only POST accepted'' @ [CHR 0x0A]\<rparr>, empty_db)
   \<and> handlePassportValid empty_db \<lparr>Method = ''POST'', Body = Inr ''12345678''\<rparr> =
     (\<lparr>StatusCode = 422, Text = ''Passport number too short'' @ [CHR 0x0A]\<rparr>, empty_db)
   \<and> handlePassportValid empty_db \<lparr>Method = ''POST'', Body = Inr ''123456789''\<rparr> =
     (\<lparr>StatusCode = 200, Text = ''valid''\<rparr>, empty_db)"
  using C7_validation [of "\<lparr>Method = ''GET'', Body = Inr ''123456789''\<rparr>" empty_db "''123456789''"]
    C7_validation [of "\<lparr>Method = ''POST'', Body = Inr ''12345678''\<rparr>" empty_db "''12345678''"]
    C7_validation [of "\<lparr>Method = ''POST'', Body = Inr ''123456789''\<rparr>" empty_db "''123456789''"]
  by (simp add: empty_db_def next_fault_def isBlacklisted_eq passports_of_def Get_is_empty_def)

text \<open>
  Claim C10. The length test is on the body as received and the lookup on the trimmed
  body: a body of 9 bytes or more whose trimmed form has fewer than 9 is not answered 422,
  and when the read goes through the answer says whether the trimmed form is in the
  \<open>passports\<close> bucket.
\<close>

theorem C10_raw_length:
  assumes "Method req = ''POST''" and "Body req = Inr body"
    and "9 \<le> length body" and "length (TrimSpace body) < 9"
  shows "StatusCode (fst (handlePassportValid db req)) \<noteq> 422
       \<and> (fst (next_fault db) = None \<longrightarrow>
            fst (handlePassportValid db req) =
              \<lparr>StatusCode = 200,
               Text = (if Get_is_empty (passports_of db) (TrimSpace body) then ''valid''
                       else ''invalid'')\<rparr>)"
  using handle_lookup [OF assms(1-3), of db]
  by (auto simp: listed_eq http_Error_def Write_def split: option.splits)

lemma TrimSpace_padded: "TrimSpace ''12345678 '' = ''12345678''"
  by (simp add: TrimSpace_def space1_def space2_def space3_def)

text \<open>
  The identifier \<open>12345678\<close> is in the store; the body is that identifier and a space.
\<close>

theorem C10_raw_length_witness:
  "StatusCode (fst (handlePassportValid (listed_db ''12345678'')
       \<lparr>Method = ''POST'', Body = Inr ''12345678 ''\<rparr>)) \<noteq> 422
   \<and> fst (handlePassportValid (listed_db ''12345678'')
       \<lparr>Method = ''POST'', Body = Inr ''12345678 ''\<rparr>) =
     \<lparr>StatusCode = 200, Text = ''invalid''\<rparr>"
  using C10_raw_length [of "\<lparr>Method = ''POST'', Body = Inr ''12345678 ''\<rparr>" "''12345678 ''"
      "listed_db ''12345678''"]
  by (simp add: TrimSpace_padded listed_db_def next_fault_def passports_of_def
      Get_is_empty_def)

lemma put_lines_keeps:
  "put_lines b ls = Inr b' \<Longrightarrow> \<not> Get_is_empty b k \<Longrightarrow> b' k = b k"
proof (induction ls arbitrary: b)
  case Nil
  then show ?case by simp
next
  case (Cons l ls)
  show ?case
  proof (cases "Get_is_empty b (TrimSpace l)")
    case True
    then obtain b1 where p: "Put b (TrimSpace l) ''1'' = Inr b1" and r: "put_lines b1 ls = Inr b'"
      using Cons.prems(1) by (auto split: sum.splits)
    have b1: "b1 = b(TrimSpace l \<mapsto> ''1'')"
      using p by (auto simp: Put_def split: if_splits)
    have ne: "k \<noteq> TrimSpace l" using True Cons.prems(2) by auto
    then have "\<not> Get_is_empty b1 k" using Cons.prems(2) by (simp add: b1 Get_is_empty_def)
    then have "b' k = b1 k" using Cons.IH [OF r] by simp
    then show ?thesis using ne by (simp add: b1)
  next
    case False
    then show ?thesis using Cons by simp
  qed
qed

lemma put_lines_noop:
  "\<forall>l\<in>set ls. \<not> Get_is_empty b (TrimSpace l) \<Longrightarrow> put_lines b ls = Inr b"
  by (induction ls) auto

lemma put_lines_present:
  "put_lines b ls = Inr b' \<Longrightarrow> l \<in> set ls \<Longrightarrow> \<not> Get_is_empty b' (TrimSpace l)"
proof (induction ls arbitrary: b)
  case Nil
  then show ?case by simp
next
  case (Cons a ls)
  show ?case
  proof (cases "Get_is_empty b (TrimSpace a)")
    case True
    then obtain b1 where p: "Put b (TrimSpace a) ''1'' = Inr b1" and r: "put_lines b1 ls = Inr b'"
      using Cons.prems(1) by (auto split: sum.splits)
    have b1: "b1 = b(TrimSpace a \<mapsto> ''1'')"
      using p by (auto simp: Put_def split: if_splits)
    show ?thesis
    proof (cases "l \<in> set ls")
      case True
      then show ?thesis using Cons.IH [OF r] by simp
    next
      case False
      then have "l = a" using Cons.prems(2) by simp
      moreover have "\<not> Get_is_empty b1 (TrimSpace a)" by (simp add: b1 Get_is_empty_def)
      ultimately show ?thesis using put_lines_keeps [OF r] by (simp add: Get_is_empty_def)
    qed
  next
    case False
    note absent = False
    have r: "put_lines b ls = Inr b'" using Cons.prems(1) False by simp
    show ?thesis
    proof (cases "l \<in> set ls")
      case True
      then show ?thesis using Cons.IH [OF r] by simp
    next
      case False
      then have "l = a" using Cons.prems(2) by simp
      then show ?thesis using put_lines_keeps [OF r absent] absent
        by (simp add: Get_is_empty_def)
    qed
  qed
qed

text \<open>What \<open>saveToDB\<close> leaves in the \<open>passports\<close> bucket, by the outcome of \<open>put_lines\<close>.\<close>

lemma saveToDB_cases:
  "(fst (saveToDB db ls) \<noteq> None \<and> buckets (snd (saveToDB db ls)) = buckets db)
   \<or> (\<exists>b'. put_lines (passports_of db) ls = Inr b' \<and> fst (saveToDB db ls) = None
         \<and> buckets (snd (saveToDB db ls)) = (buckets db)(''passports'' \<mapsto> b'))"
  by (cases "next_fault db"; cases "buckets db ''passports''";
      cases "put_lines (passports_of db) ls")
     (auto simp: saveToDB_def Update_def CreateBucketIfNotExists_def passports_of_def
        next_fault_def split: list.splits option.splits)

lemma passports_of_upd:
  "buckets d = (buckets db)(''passports'' \<mapsto> b') \<Longrightarrow> passports_of d = b'"
  by (simp add: passports_of_def)

section \<open>Ingesting twice\<close>

text \<open>
  Claim C6. An identifier that the membership query finds stays found, with the one entry
  it had, whatever batch \<open>saveToDB\<close> commits. After a batch has been committed, each of its
  identifiers is found, and committing the same batch again leaves every bucket as it is.
\<close>

theorem C6_idempotent:
  "(listed db x \<longrightarrow>
      listed (snd (saveToDB db ls)) x
      \<and> passports_of (snd (saveToDB db ls)) (TrimSpace x) = passports_of db (TrimSpace x))
   \<and> (saveToDB db ls = (None, db') \<longrightarrow>
      (\<forall>l\<in>set ls. listed db' l) \<and> buckets (snd (saveToDB db' ls)) = buckets db')"
proof (intro conjI impI)
  assume x: "listed db x"
  then have ne: "\<not> Get_is_empty (passports_of db) (TrimSpace x)" by (simp add: listed_eq)
  have same: "passports_of (snd (saveToDB db ls)) (TrimSpace x) = passports_of db (TrimSpace x)"
    using saveToDB_cases [of db ls] put_lines_keeps [OF _ ne]
    by (auto simp: passports_of_def)
  then show "passports_of (snd (saveToDB db ls)) (TrimSpace x) = passports_of db (TrimSpace x)" .
  show "listed (snd (saveToDB db ls)) x"
    using ne same by (simp add: listed_eq Get_is_empty_def)
next
  assume s: "saveToDB db ls = (None, db')"
  then obtain b' where b': "put_lines (passports_of db) ls = Inr b'"
      and bk: "buckets db' = (buckets db)(''passports'' \<mapsto> b')"
    using saveToDB_cases [of db ls] by auto
  have p: "passports_of db' = b'" using bk by (rule passports_of_upd)
  have pres: "\<forall>l\<in>set ls. \<not> Get_is_empty b' (TrimSpace l)"
    using put_lines_present [OF b'] by blast
  then show "\<forall>l\<in>set ls. listed db' l" by (simp add: listed_eq p)
  have "put_lines (passports_of db') ls = Inr b'"
    using put_lines_noop [OF pres] by (simp add: p)
  then show "buckets (snd (saveToDB db' ls)) = buckets db'"
    using saveToDB_cases [of db' ls] bk by auto
qed

text \<open>The identifier \<open>123456789\<close> is in the store and is committed once more.\<close>

theorem C6_idempotent_witness:
  "listed (snd (saveToDB (listed_db ''123456789'') [''123456789''])) ''123456789''
   \<and> passports_of (snd (saveToDB (listed_db ''123456789'') [''123456789'']))
        (TrimSpace ''123456789'') = Some ''1''
   \<and> listed (listed_db ''123456789'') ''123456789''
   \<and> buckets (snd (saveToDB (listed_db ''123456789'') [''123456789'']))
       = buckets (listed_db ''123456789'')"
proof -
  have t: "TrimSpace ''123456789'' = ''123456789''"
    by (simp add: TrimSpace_digits is_digit_def)
  have l: "listed (listed_db ''123456789'') ''123456789''"
    by (simp add: listed_eq t listed_db_def passports_of_def Get_is_empty_def)
  have s: "saveToDB (listed_db ''123456789'') [''123456789''] = (None, listed_db ''123456789'')"
    by (simp add: saveToDB_def Update_def next_fault_def CreateBucketIfNotExists_def t
        Get_is_empty_def listed_db_def)
  show ?thesis
    using C6_idempotent [of "listed_db ''123456789''" "''123456789''" "[''123456789'']"
        "listed_db ''123456789''"] l s
    by (simp add: t listed_db_def passports_of_def)
qed

section \<open>The invariant of the store\<close>

lemma put_lines_blank_free:
  "put_lines b ls = Inr b' \<Longrightarrow> \<forall>k. b k \<noteq> Some [] \<Longrightarrow> b' k \<noteq> Some []"
proof (induction ls arbitrary: b)
  case Nil
  then show ?case by simp
next
  case (Cons l ls)
  show ?case
  proof (cases "Get_is_empty b (TrimSpace l)")
    case True
    then obtain b1 where p: "Put b (TrimSpace l) ''1'' = Inr b1" and r: "put_lines b1 ls = Inr b'"
      using Cons.prems(1) by (auto split: sum.splits)
    have "b1 = b(TrimSpace l \<mapsto> ''1'')"
      using p by (auto simp: Put_def split: if_splits)
    then have "\<forall>k. b1 k \<noteq> Some []" using Cons.prems(2) by simp
    then show ?thesis using Cons.IH [OF r] by simp
  next
    case False
    then show ?thesis using Cons by simp
  qed
qed

lemma blank_free_saveToDB: "blank_free db \<Longrightarrow> blank_free (snd (saveToDB db ls))"
proof -
  assume bf: "blank_free db"
  then have b: "\<forall>k. passports_of db k \<noteq> Some []" by (simp add: blank_free_def)
  from saveToDB_cases [of db ls] show ?thesis
  proof
    assume "fst (saveToDB db ls) \<noteq> None \<and> buckets (snd (saveToDB db ls)) = buckets db"
    then show ?thesis using bf by (simp add: blank_free_def passports_of_def)
  next
    assume "\<exists>b'. put_lines (passports_of db) ls = Inr b' \<and> fst (saveToDB db ls) = None
         \<and> buckets (snd (saveToDB db ls)) = (buckets db)(''passports'' \<mapsto> b')"
    then obtain b' where p: "put_lines (passports_of db) ls = Inr b'"
      and bk: "buckets (snd (saveToDB db ls)) = (buckets db)(''passports'' \<mapsto> b')" by auto
    have "passports_of (snd (saveToDB db ls)) = b'" using bk by (rule passports_of_upd)
    then show ?thesis using put_lines_blank_free [OF p b] by (simp add: blank_free_def)
  qed
qed

lemma blank_free_flush: "blank_free db \<Longrightarrow> blank_free (flush db lss)"
  by (induction lss arbitrary: db) (simp_all add: blank_free_saveToDB)

lemma blank_free_cong:
  "buckets d ''passports'' = buckets db ''passports'' \<Longrightarrow> blank_free db \<Longrightarrow> blank_free d"
  by (simp add: blank_free_def passports_of_def)

lemma setLastUpdated_keeps:
  "buckets (snd (setLastUpdated e db)) ''passports'' = buckets db ''passports''"
  by (cases "next_fault db"; cases "buckets db ''ustatus''")
     (auto simp: setLastUpdated_def Update_def CreateBucketIfNotExists_def Put_def
        next_fault_def split: option.splits list.splits if_splits)

lemma blank_free_downloadUpdate:
  "blank_free db \<Longrightarrow> blank_free (snd (snd (downloadUpdate e db)))"
proof (cases "Get e")
  case (Inl err)
  assume "blank_free db"
  then show ?thesis using Inl by (simp add: downloadUpdate_def)
next
  case (Inr r)
  assume bf: "blank_free db"
  obtain bs rdrErr where r: "r = (bs, rdrErr)" by (cases r)
  let ?f = "flush db (fst (batches (tokens bs)))"
  let ?rest = "snd (batches (tokens bs))"
  have f: "blank_free ?f" using bf by (rule blank_free_flush)
  define d1 where "d1 = (if ?rest \<noteq> [] then snd (saveToDB ?f ?rest) else ?f)"
  have d1: "blank_free d1" using f by (simp add: d1_def blank_free_saveToDB)
  have d2: "blank_free (snd (setLastUpdated e d1))"
    using blank_free_cong [OF setLastUpdated_keeps d1] .
  show ?thesis
    using Inr r d1 d2
    by (cases "saveToDB ?f ?rest"; cases "setLastUpdated e d1")
       (auto simp: downloadUpdate_def read_loop_start Let_def d1_def
          split: option.splits if_splits)
qed

lemma blank_free_next_fault: "blank_free db \<Longrightarrow> blank_free (snd (next_fault db))"
  using blank_free_cong [of "snd (next_fault db)" db] by simp

lemma remoteUpdated_db: "snd (snd (remoteUpdated e t db)) = snd (next_fault db)"
  by (simp add: remoteUpdated_def View_eq Let_def split: sum.splits)

lemma blank_free_performUpdate:
  "blank_free db \<Longrightarrow> blank_free (after (performUpdate e db))"
proof -
  assume bf: "blank_free db"
  have n: "blank_free (snd (next_fault db))" using bf by (rule blank_free_next_fault)
  have d: "blank_free (snd (snd (downloadUpdate e (snd (next_fault db)))))"
    using n by (rule blank_free_downloadUpdate)
  show ?thesis
  proof (cases "NewRequest e")
    case (Some err)
    then show ?thesis using bf by (simp add: performUpdate_def)
  next
    case None
    note nr = None
    show ?thesis
    proof (cases "Do e")
      case (Inl err)
      then show ?thesis using bf nr by (simp add: performUpdate_def)
    next
      case (Inr header)
      note hd = Inr
      show ?thesis
      proof (cases "Parse e (TrimSpace header)")
        case (Inl err)
        then show ?thesis using bf nr hd by (simp add: performUpdate_def)
      next
        case (Inr t)
        obtain outdated err where ru: "remoteUpdated e t db = (outdated, err, snd (next_fault db))"
          using remoteUpdated_db [of e t db] by (cases "remoteUpdated e t db") auto
        obtain success err' db2 where
          du: "downloadUpdate e (snd (next_fault db)) = (success, err', db2)"
          by (cases "downloadUpdate e (snd (next_fault db))") auto
        have "blank_free db2" using d by (simp add: du)
        then show ?thesis
          using nr hd Inr ru du n by (simp add: performUpdate_def)
      qed
    qed
  qed
qed

section \<open>Queries and refreshes\<close>

lemma ingest_listed: "k \<in> K \<Longrightarrow> \<not> Get_is_empty (ingest b K) k"
  by (auto simp: ingest_def Get_is_empty_def split: option.splits)

lemma listed_ingested: "t \<in> set (tokens bs) \<Longrightarrow> listed (ingested db (tokens bs)) t"
  using tokens_digits [of t bs] ingest_listed [of t "set (tokens bs)" "passports_of db"]
  by (auto simp: listed_eq ingested_def TrimSpace_digits)

lemma listed_cong:
  "buckets d ''passports'' = buckets d' ''passports'' \<Longrightarrow> listed d num = listed d' num"
  by (simp add: listed_eq passports_of_def)

lemma blank_free_dom:
  "blank_free db \<Longrightarrow> listed db num = (TrimSpace num \<in> dom (passports_of db))"
  by (auto simp: listed_eq blank_free_def Get_is_empty_def split: option.splits)

lemma next_fault_nil [simp]: "faults db = [] \<Longrightarrow> next_fault db = (None, db)"
  by (simp add: next_fault_def)

text \<open>
  Claim C8. For a \<open>POST\<close> with a body of 9 bytes or more whose read the storage layer lets
  through, on a store that keeps no key with an empty value, the answer is \<open>invalid\<close> exactly
  when the trimmed body is a key of the \<open>passports\<close> bucket and \<open>valid\<close> exactly when it is
  not. On the empty store the answer is \<open>valid\<close>. After a refresh that went through with no
  storage failure and whose feed has the body among its tokens, the answer is \<open>invalid\<close>.
  The handling of a signal keeps the store free of empty values.
\<close>

theorem C8_membership:
  assumes "Method req = ''POST''" and "Body req = Inr body" and "9 \<le> length body"
  shows "(fst (next_fault db) = None \<and> blank_free db \<longrightarrow>
            fst (handlePassportValid db req) =
              \<lparr>StatusCode = 200,
               Text = (if TrimSpace body \<in> dom (passports_of db) then ''invalid''
                       else ''valid'')\<rparr>)
       \<and> (fst (next_fault db) = None \<and> passports_of db = Map.empty \<longrightarrow>
            fst (handlePassportValid db req) = \<lparr>StatusCode = 200, Text = ''valid''\<rparr>)
       \<and> (faults db = [] \<and> Get e = Inr (bs, EOF) \<and> body \<in> set (tokens bs)
            \<and> (\<forall>t\<in>set (tokens bs). length t \<le> MaxKeySize) \<longrightarrow>
            fst (downloadUpdate e db) = True
            \<and> fst (handlePassportValid (snd (snd (downloadUpdate e db))) req) =
                \<lparr>StatusCode = 200, Text = ''invalid''\<rparr>)
       \<and> (blank_free db \<longrightarrow> blank_free (after (performUpdate e db)))"
proof (intro conjI impI)
  assume "fst (next_fault db) = None \<and> blank_free db"
  then show "fst (handlePassportValid db req) =
      \<lparr>StatusCode = 200,
       Text = (if TrimSpace body \<in> dom (passports_of db) then ''invalid'' else ''valid'')\<rparr>"
    using handle_lookup [OF assms, of db] by (simp add: blank_free_dom Write_def)
next
  assume "fst (next_fault db) = None \<and> passports_of db = Map.empty"
  then show "fst (handlePassportValid db req) = \<lparr>StatusCode = 200, Text = ''valid''\<rparr>"
    using handle_lookup [OF assms, of db] by (simp add: listed_eq Get_is_empty_def Write_def)
next
  assume a: "faults db = [] \<and> Get e = Inr (bs, EOF) \<and> body \<in> set (tokens bs)
            \<and> (\<forall>t\<in>set (tokens bs). length t \<le> MaxKeySize)"
  let ?d = "snd (setLastUpdated e (ingested db (tokens bs)))"
  have d: "downloadUpdate e db = (True, None, ?d)"
    using downloadUpdate_ok [of e bs EOF db] a by simp
  then show "fst (downloadUpdate e db) = True" by simp
  have f: "faults ?d = []" and p: "buckets ?d ''passports'' = buckets (ingested db (tokens bs)) ''passports''"
    using setLastUpdated_passports [of "ingested db (tokens bs)" e] a by simp_all
  have "listed ?d body"
    using listed_cong [OF p, of body] listed_ingested [of body bs db] a by simp
  then show "fst (handlePassportValid (snd (snd (downloadUpdate e db))) req) =
      \<lparr>StatusCode = 200, Text = ''invalid''\<rparr>"
    using handle_lookup [OF assms, of ?d] f by (simp add: d Write_def)
next
  assume "blank_free db"
  then show "blank_free (after (performUpdate e db))" by (rule blank_free_performUpdate)
qed

lemma tokens_example: "tokens (''123456789'' @ [CHR 0x0A]) = [''123456789'']"
  using tokens_newline [of "''123456789''" "[]"] tokens_nil [of "[]"]
  by (simp add: is_digit_def)

text \<open>
  The query for \<open>123456789\<close> on the empty store, and after a refresh whose feed is that
  identifier on one line.
\<close>

theorem C8_membership_witness:
  "fst (handlePassportValid empty_db \<lparr>Method = ''POST'', Body = Inr ''123456789''\<rparr>) =
     \<lparr>StatusCode = 200, Text = ''valid''\<rparr>
   \<and> fst (handlePassportValid
       (snd (snd (downloadUpdate
          (example_env ''Thu, 01 Jan 2026 00:00:00 GMT''
             (Inr (''123456789'' @ [CHR 0x0A], EOF))) empty_db)))
       \<lparr>Method = ''POST'', Body = Inr ''123456789''\<rparr>) =
     \<lparr>StatusCode = 200, Text = ''invalid''\<rparr>"
  using C8_membership [of "\<lparr>Method = ''POST'', Body = Inr ''123456789''\<rparr>" "''123456789''"
      empty_db
      "example_env ''Thu, 01 Jan 2026 00:00:00 GMT'' (Inr (''123456789'' @ [CHR 0x0A], EOF))"
      "''123456789'' @ [CHR 0x0A]"]
    tokens_example
  by (simp add: empty_db_def example_env_def passports_of_def blank_free_def MaxKeySize_def)

section \<open>The run of the pipeline\<close>

text \<open>
  Claim C3, amended. A stream that ends with an error other than \<open>io.EOF\<close> makes
  \<open>downloadUpdate\<close> return failure with an error. When no storage operation fails (and no
  token is longer than bolt's largest key), every token of the stream is committed before
  the run returns, the ones still in the buffer when the stream ended included, whether it
  ended with \<open>io.EOF\<close> or with another error: only the digits after the last newline are
  lost. On \<open>io.EOF\<close> the time of the refresh is then written and the run returns success; on
  another error the run returns that error.
\<close>

theorem C3_download:
  assumes "Get e = Inr (bs, rdrErr)"
  shows "(rdrErr \<noteq> EOF \<longrightarrow>
            fst (downloadUpdate e db) = False \<and> fst (snd (downloadUpdate e db)) \<noteq> None)
       \<and> (faults db = [] \<and> (\<forall>t\<in>set (tokens bs). length t \<le> MaxKeySize)
            \<and> length (Now e) \<le> MaxValueSize \<longrightarrow>
            downloadUpdate e db =
              (if rdrErr = EOF then (True, None, stamped e (ingested db (tokens bs)))
               else (False, Some rdrErr, ingested db (tokens bs))))"
  using downloadUpdate_fails [OF assms, of db] downloadUpdate_ok [OF assms, of db]
    setLastUpdated_ok [of "ingested db (tokens bs)" e]
  by auto

text \<open>A feed of one line whose stream then breaks.\<close>

theorem C3_download_witness:
  "fst (downloadUpdate
      (example_env ''Thu, 01 Jan 2026 00:00:00 GMT''
         (Inr (''123456789'' @ [CHR 0x0A], Err ''bzip2 data invalid''))) empty_db) = False
   \<and> downloadUpdate
      (example_env ''Thu, 01 Jan 2026 00:00:00 GMT''
         (Inr (''123456789'' @ [CHR 0x0A], Err ''bzip2 data invalid''))) empty_db =
     (False, Some (Err ''bzip2 data invalid''), ingested empty_db [''123456789''])"
  using C3_download [of "example_env ''Thu, 01 Jan 2026 00:00:00 GMT''
         (Inr (''123456789'' @ [CHR 0x0A], Err ''bzip2 data invalid''))"
      "''123456789'' @ [CHR 0x0A]" "Err ''bzip2 data invalid''" empty_db]
    tokens_example
  by (simp add: empty_db_def example_env_def MaxKeySize_def MaxValueSize_def)

text \<open>
  Against C3 as stated: the stream breaks after one line, long before a batch of 1000 is
  full; the run returns failure and the identifier of that line is in the store.
\<close>

theorem C3_counterexample:
  "downloadUpdate
      (example_env ''Thu, 01 Jan 2026 00:00:00 GMT''
         (Inr (''123456789'' @ [CHR 0x0A], Err ''bzip2 data invalid''))) empty_db =
     (False, Some (Err ''bzip2 data invalid''), listed_db ''123456789'')"
proof -
  have t: "TrimSpace ''123456789'' = ''123456789''"
    by (simp add: TrimSpace_digits is_digit_def)
  show ?thesis
    by (simp add: downloadUpdate_def example_env_def start_def step_def is_digit_def
        saveToDB_def Update_def next_fault_def CreateBucketIfNotExists_def t Get_is_empty_def
        Put_def MaxKeySize_def MaxValueSize_def empty_db_def listed_db_def)
qed

text \<open>
  Claim C2, amended. For every stream, when the loop ends the pending token is the digits
  after the last newline, and the tokens emitted are those of \<open>tokens\<close>, in order: the full
  batches of 1000 have gone to \<open>saveToDB\<close> and the rest is in the buffer. A token is all the
  digits of a line that a newline ends, lines without a digit give none, and the bytes
  that are neither digits nor newlines are dropped without ending the token: the digits
  on both sides of such a byte are one token.
\<close>

theorem C2_tokenizer:
  "read_loop bs (start db) =
     \<lparr>line = pending bs,
      lines = snd (batches (tokens bs)),
      linesRead = count_list bs (CHR 0x0A),
      savedLines = length (snd (batches (tokens bs))),
      store = flush db (fst (batches (tokens bs)))\<rparr>
   \<and> concat (fst (batches (tokens bs))) @ snd (batches (tokens bs)) = tokens bs
   \<and> tokens bs = filter (\<lambda>t. t \<noteq> []) (map (filter is_digit) (butlast (lines_of bs)))
   \<and> pending bs = filter is_digit (last (lines_of bs))"
  using read_loop_eq [OF start_inv, of bs db]
  by (simp add: start_def batches_concat tokens_def pending_def digit_lines_def map_butlast
      last_map)

text \<open>
  Against C2 as stated: the byte \<open>a\<close> does not end the run \<open>12\<close>; the one token emitted is
  \<open>1234\<close>.
\<close>

theorem C2_counterexample:
  "lines (read_loop (''12a34'' @ [CHR 0x0A]) (start empty_db)) = [''1234'']"
  by (simp add: start_def step_def is_digit_def)

lemma tokens_replicate:
  "t \<noteq> [] \<Longrightarrow> list_all is_digit t \<Longrightarrow>
   tokens (concat (replicate n (t @ [CHR 0x0A]))) = replicate n t"
proof (induction n)
  case 0
  then show ?case using tokens_nil [of "[]"] by simp
next
  case (Suc n)
  then show ?case
    using tokens_newline [of t "concat (replicate n (t @ [CHR 0x0A]))"] by simp
qed

lemma batches_one: "length ts = 1000 \<Longrightarrow> batches ts = ([ts], [])"
  using batches_full [of ts "[]"] batches_small [of "[]"] by simp

lemma swallowed_flush:
  assumes "Get e = Inr (concat (replicate 1000 (t @ [CHR 0x0A])), EOF)"
    and "t \<noteq> []" and "list_all is_digit t" and "length (Now e) \<le> MaxValueSize"
  shows "downloadUpdate e \<lparr>buckets = Map.empty, faults = [Some err]\<rparr> =
     (True, None, \<lparr>buckets = [''ustatus'' \<mapsto> [''updated'' \<mapsto> Now e]], faults = []\<rparr>)"
proof -
  let ?ts = "replicate 1000 t"
  have tk: "tokens (concat (replicate 1000 (t @ [CHR 0x0A]))) = ?ts"
    using assms(2,3) by (rule tokens_replicate)
  have b: "batches ?ts = ([?ts], [])"
    by (rule batches_one) simp
  have sv: "saveToDB \<lparr>buckets = Map.empty, faults = [Some err]\<rparr> ?ts =
      (Some err, \<lparr>buckets = Map.empty, faults = []\<rparr>)"
    by (simp add: saveToDB_def Update_def next_fault_def)
  have sl: "setLastUpdated e \<lparr>buckets = Map.empty, faults = []\<rparr> =
      (None, \<lparr>buckets = [''ustatus'' \<mapsto> [''updated'' \<mapsto> Now e]], faults = []\<rparr>)"
    using assms(4)
    by (simp add: setLastUpdated_def Update_def CreateBucketIfNotExists_def Put_def
        MaxKeySize_def)
  show ?thesis
    by (simp add: downloadUpdate_def assms(1) read_loop_start tk b sv sl Let_def)
qed

text \<open>
  Claim C4 on the code. A feed of 1000 lines fills one batch; the commit of that batch fails
  (the disk is full) and the loop drops the error: \<open>downloadUpdate\<close> returns success and
  writes the time of the refresh, and no identifier is in the store. And when the read
  transaction of \<open>remoteUpdated\<close> fails, its error is overwritten: the check returns no
  error.
\<close>

theorem C4_swallowed_errors:
  "downloadUpdate
     (example_env ''Thu, 01 Jan 2026 00:00:00 GMT''
        (Inr (concat (replicate 1000 (''123456789'' @ [CHR 0x0A])), EOF)))
     \<lparr>buckets = Map.empty, faults = [Some (Err ''write: no space left on device'')]\<rparr>
     = (True, None, updated_db ''Sat, 31 Oct 2026 12:00:00 UTC'')
   \<and> remoteUpdated
     (example_env ''Thu, 01 Jan 2026 00:00:00 GMT'' (Inl (Err ''connection refused'')))
     1767225600 \<lparr>buckets = Map.empty, faults = [Some (Err ''database not open'')]\<rparr>
     = (True, None, empty_db)"
proof -
  have "downloadUpdate
     (example_env ''Thu, 01 Jan 2026 00:00:00 GMT''
        (Inr (concat (replicate 1000 (''123456789'' @ [CHR 0x0A])), EOF)))
     \<lparr>buckets = Map.empty, faults = [Some (Err ''write: no space left on device'')]\<rparr>
     = (True, None, updated_db ''Sat, 31 Oct 2026 12:00:00 UTC'')"
    using swallowed_flush [of "example_env ''Thu, 01 Jan 2026 00:00:00 GMT''
        (Inr (concat (replicate 1000 (''123456789'' @ [CHR 0x0A])), EOF))" "''123456789''"
        "Err ''write: no space left on device''"]
    by (simp add: example_env_def updated_db_def is_digit_def MaxValueSize_def)
  moreover have "remoteUpdated
     (example_env ''Thu, 01 Jan 2026 00:00:00 GMT'' (Inl (Err ''connection refused'')))
     1767225600 \<lparr>buckets = Map.empty, faults = [Some (Err ''database not open'')]\<rparr>
     = (True, None, empty_db)"
    by (simp add: remoteUpdated_def View_def next_fault_def example_env_def example_Parse_def
        RFC1123_def After_def empty_db_def)
  ultimately show ?thesis by simp
qed

end
